theory Spec2Isabelle
  imports Main "HOL-Library.Multiset"
begin

section \<open>The QFT kernel of the notebook\<close>

text \<open>
  The notebook \<^verbatim>\<open>QFT_Neutral_Atoms.ipynb\<close> builds one kernel, \<^verbatim>\<open>qft_program\<close>, inside
  \<^verbatim>\<open>qft(n, bit_str, parallelize)\<close>. The kernel declares a quantum and a classical register
  and then issues gate statements. A statement names the qubits it acts on by their index in
  \<^verbatim>\<open>qreg\<close> (the statement \<^verbatim>\<open>qreg[i]\<close> is recorded in the kernel, it is not a Python list
  access), a measurement names the index of the classical bit in \<^verbatim>\<open>creg\<close> as well.
  Register sizes and loop indices are natural numbers (\<^verbatim>\<open>range\<close> yields nothing below 0).
\<close>

subsection \<open>Rotation angles\<close>

text \<open>
  The rotation angles are Python floats computed from \<^verbatim>\<open>math.pi\<close> and integer powers of
  two. A float is named here by the operations that produce it; its digits are never
  computed, so nothing is assumed about rounding. What the model does compute is whether the
  computation raises: \<^verbatim>\<open>int * float\<close> and \<^verbatim>\<open>float / int\<close> first convert the integer to a
  float, and the conversion raises \<^verbatim>\<open>OverflowError\<close> when the integer rounds to \<open>2^1024\<close> or
  more, that is from \<open>2^1024 - 2^970\<close> on. A float product that overflows is \<^verbatim>\<open>inf\<close> and
  raises nothing, and no denominator is zero.
\<close>

datatype float_error = OverflowError

datatype pyfloat =
    MathPi
  | FloatOfInt int
  | FloatMul pyfloat pyfloat
  | FloatDiv pyfloat pyfloat

definition float_limit :: int where
  "float_limit = 2 ^ 1024 - 2 ^ 970"

definition float_of_int :: "int \<Rightarrow> float_error + pyfloat" where
  "float_of_int x =
     (if float_limit \<le> \<bar>x\<bar> then Inl OverflowError else Inr (FloatOfInt x))"

text \<open>\<^verbatim>\<open>math.pi / (2**(j + 2))\<close>\<close>

definition dyadic_angle :: "nat \<Rightarrow> float_error + pyfloat" where
  "dyadic_angle j =
     (case float_of_int (2 ^ (j + 2)) of
        Inl e \<Rightarrow> Inl e
      | Inr d \<Rightarrow> Inr (FloatDiv MathPi d))"

text \<open>
  \<^verbatim>\<open>((2**(n - i + 1) - 1) * math.pi) / (2**(n - i + 2))\<close>, the numerator first. The loop
  has \<open>i < n\<close>, so the exponents are positive and the powers are integers.
\<close>

definition last_angle :: "nat \<Rightarrow> nat \<Rightarrow> float_error + pyfloat" where
  "last_angle n i =
     (case float_of_int (2 ^ (n - i + 1) - 1) of
        Inl e \<Rightarrow> Inl e
      | Inr a \<Rightarrow>
          (case float_of_int (2 ^ (n - i + 2)) of
             Inl e \<Rightarrow> Inl e
           | Inr d \<Rightarrow> Inr (FloatDiv (FloatMul a MathPi) d)))"

subsection \<open>Statements and their execution\<close>

datatype stmt =
    X nat
  | H nat
  | RZ nat pyfloat
  | CX nat nat
  | Measure nat nat

fun qubits_of :: "stmt \<Rightarrow> nat list" where
  "qubits_of (X q) = [q]"
| "qubits_of (H q) = [q]"
| "qubits_of (RZ q a) = [q]"
| "qubits_of (CX c t) = [c, t]"
| "qubits_of (Measure q b) = [q]"

fun is_x :: "stmt \<Rightarrow> bool" where
  "is_x (X q) = True"
| "is_x s = False"

fun is_measure :: "stmt \<Rightarrow> bool" where
  "is_measure (Measure q b) = True"
| "is_measure s = False"

text \<open>
  Running a piece of the kernel body issues statements in order until it ends or an
  exception stops it: the statements issued, and the exception if there is one.
\<close>

type_synonym trace = "stmt list \<times> float_error option"

definition emit :: "stmt \<Rightarrow> trace" where
  "emit s = ([s], None)"

text \<open>\<open>then_do a b\<close> runs \<open>a\<close> and, unless \<open>a\<close> raised, \<open>b\<close> after it.\<close>

definition then_do :: "trace \<Rightarrow> trace \<Rightarrow> trace" where
  "then_do a b =
     (case snd a of
        Some e \<Rightarrow> a
      | None \<Rightarrow> (fst a @ fst b, snd b))"

text \<open>A \<^verbatim>\<open>for\<close> loop over the values \<open>xs\<close>.\<close>

fun for_each :: "('a \<Rightarrow> trace) \<Rightarrow> 'a list \<Rightarrow> trace" where
  "for_each f [] = ([], None)"
| "for_each f (x # xs) = then_do (f x) (for_each f xs)"

text \<open>
  \<^verbatim>\<open>qasm2.rz(qreg[q], angle)\<close>: the angle is evaluated first, and the gate is issued only
  if that raised nothing.
\<close>

definition rz :: "nat \<Rightarrow> float_error + pyfloat \<Rightarrow> trace" where
  "rz q angle = (case angle of Inl e \<Rightarrow> ([], Some e) | Inr a \<Rightarrow> emit (RZ q a))"

text \<open>
  \<^verbatim>\<open>for j in range(start + 1, n): qasm2.rz(qreg[j], math.pi / (2**(j + 2)))\<close>
\<close>

definition dyadic_roatation_layer :: "nat \<Rightarrow> nat \<Rightarrow> trace" where
  "dyadic_roatation_layer n start = for_each (\<lambda>j. rz j (dyadic_angle j)) [start + 1..<n]"

text \<open>
  \<^verbatim>\<open>for j in range(ctrl + 1, n): qasm2.cx(qreg[ctrl], qreg[j])\<close>
\<close>

definition cnot_fanout_layer :: "nat \<Rightarrow> nat \<Rightarrow> trace" where
  "cnot_fanout_layer n ctrl = for_each (\<lambda>j. emit (CX ctrl j)) [ctrl + 1..<n]"

text \<open>
  The first loop of \<^verbatim>\<open>qft_program\<close>, which computes no float and cannot raise:
  \<^verbatim>\<open>for i in range(len(bit_str)): if bit_str[i] == '1': qasm2.x(qreg[i])\<close>
\<close>

definition init_loop :: "string \<Rightarrow> stmt list" where
  "init_loop bit_str =
     concat (map (\<lambda>i. if bit_str ! i = CHR ''1'' then [X i] else []) [0..<length bit_str])"

text \<open>One iteration of the second loop, for the index \<open>i\<close>.\<close>

definition qft_iteration :: "nat \<Rightarrow> nat \<Rightarrow> trace" where
  "qft_iteration n i =
     then_do (emit (H i))
    (then_do (dyadic_roatation_layer n i)
    (then_do (cnot_fanout_layer n i)
    (then_do (dyadic_roatation_layer n i)
    (then_do (cnot_fanout_layer n i)
             (rz i (last_angle n i))))))"

text \<open>The third loop: \<^verbatim>\<open>for i in range(n): qasm2.measure(qreg[i], creg[i])\<close>\<close>

definition measure_loop :: "nat \<Rightarrow> stmt list" where
  "measure_loop n = map (\<lambda>i. Measure i i) [0..<n]"

text \<open>The body of \<^verbatim>\<open>qft_program\<close>: the three loops one after the other.\<close>

definition qft_body :: "nat \<Rightarrow> string \<Rightarrow> trace" where
  "qft_body n bit_str =
     then_do (init_loop bit_str, None)
    (then_do (for_each (qft_iteration n) [0..<n])
             (measure_loop n, None))"

text \<open>
  What \<^verbatim>\<open>qft_program\<close> amounts to: the registers it declares (\<^verbatim>\<open>qasm2.qreg(n)\<close>,
  \<^verbatim>\<open>qasm2.creg(n)\<close>), the statements of its body, and the exception that stopped the body,
  if one did. It is a kernel when \<open>failure\<close> is \<open>None\<close>.
\<close>

record program =
  qregs :: "nat list"
  cregs :: "nat list"
  body :: "stmt list"
  failure :: "float_error option"

definition qft_program :: "nat \<Rightarrow> string \<Rightarrow> program" where
  "qft_program n bit_str =
     \<lparr> qregs = [n],
       cregs = [n],
       body = fst (qft_body n bit_str),
       failure = snd (qft_body n bit_str) \<rparr>"

section \<open>The compiler pass \<^verbatim>\<open>run_pass\<close> of \<^verbatim>\<open>extended_opt\<close>\<close>

text \<open>
  \<^verbatim>\<open>run_pass(kernel, *, fold=True, typeinfer=True, parallelize=False)\<close> takes three keyword
  arguments, each either given by the caller or left to its default.
\<close>

record kwargs =
  kw_fold :: "bool option"
  kw_typeinfer :: "bool option"
  kw_parallelize :: "bool option"

definition fold_arg :: "kwargs \<Rightarrow> bool" where
  "fold_arg kw = (case kw_fold kw of None \<Rightarrow> True | Some b \<Rightarrow> b)"

definition typeinfer_arg :: "kwargs \<Rightarrow> bool" where
  "typeinfer_arg kw = (case kw_typeinfer kw of None \<Rightarrow> True | Some b \<Rightarrow> b)"

definition parallelize_arg :: "kwargs \<Rightarrow> bool" where
  "parallelize_arg kw = (case kw_parallelize kw of None \<Rightarrow> False | Some b \<Rightarrow> b)"

text \<open>
  The passes \<^verbatim>\<open>run_pass\<close> calls come from the libraries the notebook imports; they are
  parameters of the model. A kernel is an object: the caller holds a reference to it, and
  \<^verbatim>\<open>run_pass\<close> hands that reference to each pass and drops whatever the pass returns, so a
  pass is described by what it does to the store and by the exception it raises, if any.
  The store keeps one cell per kernel, holding its code; \<^verbatim>\<open>kernel\<close> and \<^verbatim>\<open>kernel.code\<close>
  both denote that cell.
\<close>

type_synonym ref = nat

type_synonym 'c store = "ref \<Rightarrow> 'c option"

type_synonym ('c, 'e) pass = "ref \<Rightarrow> 'c store \<Rightarrow> 'c store \<times> 'e option"

datatype 'e exn = AssertionError | Raised 'e

record ('c, 'e) passes =
  extended_run_pass :: "(bool \<Rightarrow> bool \<Rightarrow> ('c, 'e) pass) option"
  native_rewrite :: "('c, 'e) pass"
  agg_fold :: "('c, 'e) pass"
  parallelize_pass :: "('c, 'e) pass"

text \<open>
  What a run of \<^verbatim>\<open>run_pass\<close> leaves behind: the store, the calls it made (which pass, on
  which object) in the order it made them, and the exception that ended it, if one did.
  \<^verbatim>\<open>run_pass\<close> has no \<^verbatim>\<open>return\<close> statement, so there is no returned value to record.
\<close>

datatype pass_id = ExtendedRunPass bool bool | NativeRewrite | AggFoldFixpoint | ParallelizePass

record ('c, 'e) run =
  store_of :: "'c store"
  calls :: "(pass_id \<times> ref) list"
  raised :: "'e exn option"

text \<open>A call of a pass: skipped when an exception is already on its way to the caller.\<close>

definition invoke :: "pass_id \<Rightarrow> ('c, 'e) pass \<Rightarrow> ref \<Rightarrow> ('c, 'e) run \<Rightarrow> ('c, 'e) run" where
  "invoke p f r s =
     (case raised s of
        Some e \<Rightarrow> s
      | None \<Rightarrow>
          (case f r (store_of s) of
             (h, x) \<Rightarrow> \<lparr> store_of = h, calls = calls s @ [(p, r)], raised = map_option Raised x \<rparr>))"

text \<open>
  \<^verbatim>\<open>
  assert qasm2.extended.run_pass is not None
  qasm2.extended.run_pass(kernel, fold=fold, typeinfer=typeinfer)
  native_rewrite.rewrite(kernel.code)
  if parallelize:
      agg_fold.fixpoint(kernel)
      parallelize_pass(kernel)
  \<close>
\<close>

definition run_pass ::
  "('c, 'e) passes \<Rightarrow> ref \<Rightarrow> kwargs \<Rightarrow> 'c store \<Rightarrow> ('c, 'e) run" where
  "run_pass ps kernel_ref kw h =
     (case extended_run_pass ps of
        None \<Rightarrow> \<lparr> store_of = h, calls = [], raised = Some AssertionError \<rparr>
      | Some base \<Rightarrow>
          (let s0 = \<lparr> store_of = h, calls = [], raised = None \<rparr>;
               s1 = invoke (ExtendedRunPass (fold_arg kw) (typeinfer_arg kw))
                      (base (fold_arg kw) (typeinfer_arg kw)) kernel_ref s0;
               s2 = invoke NativeRewrite (native_rewrite ps) kernel_ref s1
           in if parallelize_arg kw
              then invoke ParallelizePass (parallelize_pass ps) kernel_ref
                     (invoke AggFoldFixpoint (agg_fold ps) kernel_ref s2)
              else s2))"

text \<open>
  \<^verbatim>\<open>qft(n, bit_str, parallelize=True)\<close> decorates \<^verbatim>\<open>qft_program\<close> with
  \<^verbatim>\<open>@extended_opt(parallelize=parallelize)\<close> and returns the decorated kernel. An exception
  of the body goes to the caller of \<^verbatim>\<open>qft\<close>. Otherwise the kernel becomes a new object
  \<open>new\<close> of the store and \<^verbatim>\<open>run_pass\<close> is applied to it, with \<^verbatim>\<open>fold\<close> and \<^verbatim>\<open>typeinfer\<close> left
  to their defaults; when the run has raised nothing, the object \<open>new\<close> as the run left it is
  the kernel \<^verbatim>\<open>qft\<close> returns, and when a pass has raised, \<^verbatim>\<open>qft\<close> raises.
\<close>

definition qft ::
  "(program, 'e) passes \<Rightarrow> ref \<Rightarrow> nat \<Rightarrow> string \<Rightarrow> bool \<Rightarrow> program store \<Rightarrow>
   float_error + (program, 'e) run" where
  "qft ps new n bit_str parallelize h =
     (case failure (qft_program n bit_str) of
        Some e \<Rightarrow> Inl e
      | None \<Rightarrow>
          Inr (run_pass ps new
                 \<lparr> kw_fold = None, kw_typeinfer = None, kw_parallelize = Some parallelize \<rparr>
                 (h(new \<mapsto> qft_program n bit_str))))"




text \<open>
  A pass that writes nothing: it leaves every store as it found it.
\<close>

definition leaves_store :: "('c, 'e) pass \<Rightarrow> bool" where
  "leaves_store p \<longleftrightarrow> (\<forall>r h. fst (p r h) = h)"

section \<open>Sample passes\<close>

text \<open>
  Concrete passes for the closed instances below. \<open>tag_pass\<close> appends its name to the code
  of the kernel it is handed, in place; \<open>failing_pass\<close> raises; \<open>idle_pass\<close> does nothing.
\<close>

definition tag_pass :: "string \<Rightarrow> (string list, string) pass" where
  "tag_pass name r h = (h(r := map_option (\<lambda>c. c @ [name]) (h r)), None)"

definition failing_pass :: "string \<Rightarrow> (string list, string) pass" where
  "failing_pass e r h = (h, Some e)"

definition idle_pass :: "(string list, string) pass" where
  "idle_pass r h = (h, None)"

definition sample_passes :: "(string list, string) passes" where
  "sample_passes =
     \<lparr> extended_run_pass = Some (\<lambda>f t. tag_pass ''extended''),
       native_rewrite = tag_pass ''native'',
       agg_fold = tag_pass ''fold'',
       parallelize_pass = tag_pass ''parallel'' \<rparr>"

definition failing_passes :: "(string list, string) passes" where
  "failing_passes =
     \<lparr> extended_run_pass = Some (\<lambda>f t. tag_pass ''extended''),
       native_rewrite = failing_pass ''unsupported gate'',
       agg_fold = tag_pass ''fold'',
       parallelize_pass = tag_pass ''parallel'' \<rparr>"

definition idle_passes :: "(string list, string) passes" where
  "idle_passes =
     \<lparr> extended_run_pass = Some (\<lambda>f t. idle_pass),
       native_rewrite = idle_pass,
       agg_fold = idle_pass,
       parallelize_pass = idle_pass \<rparr>"

definition sample_store :: "string list store" where
  "sample_store = (\<lambda>r. None)(0 := Some [])"

definition kw_default :: kwargs where
  "kw_default = \<lparr> kw_fold = None, kw_typeinfer = None, kw_parallelize = None \<rparr>"

definition kw_parallel :: kwargs where
  "kw_parallel = \<lparr> kw_fold = None, kw_typeinfer = None, kw_parallelize = Some True \<rparr>"



definition no_base_passes :: "(string list, string) passes" where
  "no_base_passes =
     \<lparr> extended_run_pass = None,
       native_rewrite = tag_pass ''native_rewrite'',
       agg_fold = tag_pass ''agg_fold'',
       parallelize_pass = tag_pass ''parallelize_pass'' \<rparr>"

fun decompose_x :: "stmt \<Rightarrow> stmt list" where
  "decompose_x (X q) = [H q, RZ q MathPi, H q]"
| "decompose_x s = [s]"

definition rewrite_x_pass :: "(program, string) pass" where
  "rewrite_x_pass r h =
     (h(r := map_option (\<lambda>p. p\<lparr>body := concat (map decompose_x (body p))\<rparr>) (h r)), None)"

definition skip_pass :: "(program, string) pass" where
  "skip_pass r h = (h, None)"

definition decomposing_passes :: "(program, string) passes" where
  "decomposing_passes =
     \<lparr> extended_run_pass = Some (\<lambda>f t. skip_pass),
       native_rewrite = rewrite_x_pass,
       agg_fold = skip_pass,
       parallelize_pass = skip_pass \<rparr>"

definition empty_store :: "program store" where
  "empty_store = (\<lambda>r. None)"

section \<open>The circuit IR and the scheduler of the specification\<close>

text \<open>
  The notebook only calls the parallelization pass (\<^verbatim>\<open>UOpToParallel\<close>) and never builds a
  circuit IR of its own: both live in the libraries it imports. The definitions of this
  section follow the specification's description of them (its sections 3, 4.1, 4.5 and 7).
\<close>

type_synonym qubit = "string \<times> nat"

type_synonym classical_bit = "string \<times> nat"

text \<open>
  Modelled from the spec: the Operation of the circuit IR (section 3), a tagged variant
  \<^verbatim>\<open>Gate{kind, target_qubits, parameters}\<close>, \<^verbatim>\<open>Measure{qubit, classical_bit}\<close>,
  \<^verbatim>\<open>Barrier{qubit_set}\<close>; a qubit or classical bit is a register name with an index.
\<close>

datatype 'p operation =
    GateOp string "qubit list" "'p list"
  | MeasureOp qubit classical_bit
  | BarrierOp "qubit list"

text \<open>
  Modelled from the spec: the Circuit (section 3), an ordered sequence of Operations plus
  the declared qubits and classical bits.
\<close>

record 'p circuit =
  qubits :: "qubit list"
  classical_bits :: "classical_bit list"
  operations :: "'p operation list"

text \<open>
  Modelled from the spec: the error taxonomy of section 7; \<^verbatim>\<open>UnknownResourceError\<close> and
  \<^verbatim>\<open>UnsupportedGateError\<close> carry the offending operation.
\<close>

datatype 'p compile_error =
    UnknownResourceError "'p operation"
  | UnsupportedGateError "'p operation"
  | NonTerminatingRewriteError
  | UnboundedLoopError

text \<open>Modelled from the spec: the qubits an Operation touches (section 4.5, step 2).\<close>

fun touched :: "'p operation \<Rightarrow> qubit list" where
  "touched (GateOp k qs ps) = qs"
| "touched (MeasureOp q b) = [q]"
| "touched (BarrierOp qs) = qs"

text \<open>Modelled from the spec: the classical bits an Operation refers to (section 3).\<close>

fun bits_of :: "'p operation \<Rightarrow> classical_bit list" where
  "bits_of (GateOp k qs ps) = []"
| "bits_of (MeasureOp q b) = [b]"
| "bits_of (BarrierOp qs) = []"

text \<open>
  Modelled from the spec: a circuit description gives the numbers of declared qubits and
  classical bits (section 6); the registers are named \<open>q\<close> and \<open>c\<close>.
\<close>

definition declare_circuit :: "nat \<Rightarrow> nat \<Rightarrow> 'p circuit" where
  "declare_circuit n_qubits n_bits =
     \<lparr> qubits = map (\<lambda>i. (''q'', i)) [0..<n_qubits],
       classical_bits = map (\<lambda>i. (''c'', i)) [0..<n_bits],
       operations = [] \<rparr>"

text \<open>
  Modelled from the spec: the invariant of section 3, every qubit and bit an Operation
  refers to is declared in the Circuit.
\<close>

definition declared_in :: "'p circuit \<Rightarrow> 'p operation \<Rightarrow> bool" where
  "declared_in c op \<longleftrightarrow>
     list_all (\<lambda>q. q \<in> set (qubits c)) (touched op)
     \<and> list_all (\<lambda>b. b \<in> set (classical_bits c)) (bits_of op)"

text \<open>
  Modelled from the spec: the construction API of section 4.1 appends Operations in program
  order; an Operation that refers to an undeclared qubit or bit fails with
  \<^verbatim>\<open>UnknownResourceError\<close>.
\<close>

definition append_operation ::
  "'p circuit \<Rightarrow> 'p operation \<Rightarrow> 'p compile_error + 'p circuit" where
  "append_operation c op =
     (if declared_in c op then Inr (c\<lparr>operations := operations c @ [op]\<rparr>)
      else Inl (UnknownResourceError op))"

text \<open>Modelled from the spec: building a Circuit from a program, one append at a time.\<close>

fun build :: "'p circuit \<Rightarrow> 'p operation list \<Rightarrow> 'p compile_error + 'p circuit" where
  "build c [] = Inr c"
| "build c (op # ops) =
     (case append_operation c op of Inl e \<Rightarrow> Inl e | Inr c' \<Rightarrow> build c' ops)"

text \<open>
  Modelled from the spec: the pipeline of section 2 consumes the built Circuit; an error of
  a stage goes to the caller and nothing else is returned (section 7). The stages after
  construction are a parameter.
\<close>

definition compile ::
  "('p circuit \<Rightarrow> 'p compile_error + 'r) \<Rightarrow> 'p circuit \<Rightarrow> 'p operation list \<Rightarrow>
   'p compile_error + 'r" where
  "compile stages c ops = (case build c ops of Inl e \<Rightarrow> Inl e | Inr c' \<Rightarrow> stages c')"

text \<open>Modelled from the spec: two Operations are qubit-disjoint (section 4.5, step 2).\<close>

definition qubit_disjoint :: "'p operation \<Rightarrow> 'p operation \<Rightarrow> bool" where
  "qubit_disjoint a b \<longleftrightarrow> list_all (\<lambda>q. q \<notin> set (touched b)) (touched a)"

text \<open>
  Modelled from the spec: which gate kinds are diagonal (phase-only) is domain data, the
  parameter \<open>diag\<close>; measurements and barriers are not.
\<close>

fun diagonal_op :: "(string \<Rightarrow> bool) \<Rightarrow> 'p operation \<Rightarrow> bool" where
  "diagonal_op diag (GateOp k qs ps) = diag k"
| "diagonal_op diag (MeasureOp q b) = False"
| "diagonal_op diag (BarrierOp qs) = False"

text \<open>
  Modelled from the spec: the CommutationRelation of section 3, true iff the qubits are
  disjoint or both Operations are diagonal on overlapping qubits. With \<open>diag\<close> false
  everywhere it is the qubit-disjointness rule of section 9.
\<close>

definition commuting :: "(string \<Rightarrow> bool) \<Rightarrow> 'p operation \<Rightarrow> 'p operation \<Rightarrow> bool" where
  "commuting diag a b \<longleftrightarrow> qubit_disjoint a b \<or> (diagonal_op diag a \<and> diagonal_op diag b)"

text \<open>
  Modelled from the spec: section 4.5, step 2. An Operation may join a Layer if it is
  qubit-disjoint from or commuting with every Operation already placed there.
\<close>

definition joinable :: "(string \<Rightarrow> bool) \<Rightarrow> 'p operation \<Rightarrow> 'p operation list \<Rightarrow> bool" where
  "joinable diag op layer \<longleftrightarrow>
     list_all (\<lambda>a. qubit_disjoint a op \<or> commuting diag a op) layer"

fun is_barrier :: "'p operation \<Rightarrow> bool" where
  "is_barrier (BarrierOp qs) = True"
| "is_barrier a = False"

text \<open>
  Modelled from the spec: section 4.5, step 3. A Layer holding a Barrier on a qubit of the
  Operation cuts the Operation off from that Layer and from every earlier one.
\<close>

definition cut_off :: "'p operation \<Rightarrow> 'p operation list \<Rightarrow> bool" where
  "cut_off op layer \<longleftrightarrow> list_ex (\<lambda>a. is_barrier a \<and> \<not> qubit_disjoint a op) layer"

definition admissible ::
  "(string \<Rightarrow> bool) \<Rightarrow> 'p operation \<Rightarrow> 'p operation list list \<Rightarrow> nat \<Rightarrow> bool" where
  "admissible diag op layers i \<longleftrightarrow>
     i < length layers \<and> joinable diag op (layers ! i)
     \<and> \<not> list_ex (cut_off op) (drop i layers)"

text \<open>
  Modelled from the spec: section 4.5, steps 2 and 4. The Operation joins the Layer the
  tie-break \<open>pick\<close> proposes if it may join it, and opens a new last Layer otherwise; a placed
  Operation is never moved. The specification names one tie-break and allows others, so the
  tie-break is a parameter.
\<close>

definition place ::
  "(string \<Rightarrow> bool) \<Rightarrow> ('p operation \<Rightarrow> 'p operation list list \<Rightarrow> nat option) \<Rightarrow>
   'p operation list list \<Rightarrow> 'p operation \<Rightarrow> 'p operation list list" where
  "place diag pick layers op =
     (case pick op layers of
        None \<Rightarrow> layers @ [[op]]
      | Some i \<Rightarrow>
          if admissible diag op layers i then layers[i := layers ! i @ [op]]
          else layers @ [[op]])"

text \<open>
  Modelled from the spec: section 4.5, steps 1 and 4, a single forward pass over the
  Operations in program order, starting with no Layer.
\<close>

definition schedule ::
  "(string \<Rightarrow> bool) \<Rightarrow> ('p operation \<Rightarrow> 'p operation list list \<Rightarrow> nat option) \<Rightarrow>
   'p operation list \<Rightarrow> 'p operation list list" where
  "schedule diag pick ops = foldl (place diag pick) [] ops"

text \<open>Modelled from the spec: the tie-break of step 2, the most recently opened Layer.\<close>

definition most_recent ::
  "(string \<Rightarrow> bool) \<Rightarrow> 'p operation \<Rightarrow> 'p operation list list \<Rightarrow> nat option" where
  "most_recent diag op layers = (if layers = [] then None else Some (length layers - 1))"

text \<open>
  Modelled from the spec: the tie-break of step 4, the earliest Layer reached by scanning
  from the most recently opened Layer backward while the Operation may join.
\<close>

definition earliest ::
  "(string \<Rightarrow> bool) \<Rightarrow> 'p operation \<Rightarrow> 'p operation list list \<Rightarrow> nat option" where
  "earliest diag op layers =
     (let k = length (takeWhile (joinable diag op) (rev layers))
      in if k = 0 then None else Some (length layers - k))"

text \<open>All pairs of a Layer, the earlier placed first.\<close>

fun pairwise_ok :: "(string \<Rightarrow> bool) \<Rightarrow> 'p operation list \<Rightarrow> bool" where
  "pairwise_ok diag [] = True"
| "pairwise_ok diag (a # l) \<longleftrightarrow>
     list_all (\<lambda>b. qubit_disjoint a b \<or> commuting diag a b) l \<and> pairwise_ok diag l"

text \<open>Sample data: diagonal gate kinds, a three-gate circuit, a four-bit register.\<close>

definition diag_kinds :: "string \<Rightarrow> bool" where
  "diag_kinds k \<longleftrightarrow> k = ''cz'' \<or> k = ''rz''"

definition sample_circuit :: "int operation list" where
  "sample_circuit =
     [GateOp ''h'' [(''q'', 1)] [], GateOp ''cz'' [(''q'', 0), (''q'', 1)] [],
      GateOp ''rz'' [(''q'', 0)] [1]]"

definition four_bit_circuit :: "int circuit" where
  "four_bit_circuit = declare_circuit 4 4"

definition bad_program :: "int operation list" where
  "bad_program =
     [GateOp ''h'' [(''q'', 0)] [], MeasureOp (''q'', 0) (''c'', 5),
      MeasureOp (''q'', 1) (''c'', 1)]"

definition no_stages :: "int circuit \<Rightarrow> int compile_error + int circuit" where
  "no_stages c = Inr c"

section \<open>Auxiliary facts\<close>

lemma concat_map_if:
  "concat (map (\<lambda>i. if p i then [f i] else []) xs) = map f (filter p xs)"
  by (induction xs) auto

lemma init_loop_eq:
  "init_loop bit_str = map X (filter (\<lambda>i. bit_str ! i = CHR ''1'') [0..<length bit_str])"
  unfolding init_loop_def by (rule concat_map_if)

lemma fst_then_do: "fst (then_do a b) = fst a @ (if snd a = None then fst b else [])"
  by (simp add: then_do_def split: option.splits)

lemma snd_then_do: "snd (then_do a b) = (case snd a of Some e \<Rightarrow> Some e | None \<Rightarrow> snd b)"
  by (simp add: then_do_def split: option.splits)

lemma then_do_fails: "snd b \<noteq> None \<Longrightarrow> snd (then_do a b) \<noteq> None"
  by (simp add: snd_then_do split: option.splits)

lemma set_fst_then_do: "set (fst (then_do a b)) \<subseteq> set (fst a) \<union> set (fst b)"
  by (auto simp: fst_then_do)

lemma set_fst_for_each: "set (fst (for_each f xs)) \<subseteq> (\<Union>x \<in> set xs. set (fst (f x)))"
proof (induction xs)
  case Nil
  then show ?case by simp
next
  case (Cons x xs)
  then show ?case
    using set_fst_then_do [of "f x" "for_each f xs"] by auto
qed

lemma for_each_returns:
  "(\<And>x. x \<in> set xs \<Longrightarrow> snd (f x) = None) \<Longrightarrow> snd (for_each f xs) = None"
  by (induction xs) (simp_all add: snd_then_do)

lemma float_error_only: "(e :: float_error) = OverflowError"
  by (cases e) simp

lemma float_limit_above: "m \<le> 1023 \<Longrightarrow> (2::int) ^ m < float_limit"
proof -
  assume "m \<le> 1023"
  then have a: "(2::int) ^ m \<le> 2 ^ 1023"
    by (intro power_increasing) simp_all
  have b: "(2::int) ^ 1024 = 2 * 2 ^ 1023"
    by (simp only: power_Suc [symmetric]) simp
  have c: "(2::int) ^ 970 < 2 ^ 1023"
    by (rule power_strict_increasing) simp_all
  show ?thesis
    unfolding float_limit_def using a b c by linarith
qed

lemma float_limit_below: "1024 \<le> m \<Longrightarrow> float_limit \<le> (2::int) ^ m"
proof -
  assume "1024 \<le> m"
  then have a: "(2::int) ^ 1024 \<le> 2 ^ m"
    by (intro power_increasing) simp_all
  have c: "(0::int) \<le> 2 ^ 970"
    by (rule zero_le_power) simp
  show ?thesis
    unfolding float_limit_def using a c by linarith
qed

lemma float_of_int_power: "m \<le> 1023 \<Longrightarrow> float_of_int (2 ^ m) = Inr (FloatOfInt (2 ^ m))"
  using float_limit_above [of m] by (simp add: float_of_int_def)

lemma float_of_int_power_overflows: "1024 \<le> m \<Longrightarrow> float_of_int (2 ^ m) = Inl OverflowError"
  using float_limit_below [of m] by (simp add: float_of_int_def)

lemma float_of_int_pred_power:
  "m \<le> 1023 \<Longrightarrow> float_of_int (2 ^ m - 1) = Inr (FloatOfInt (2 ^ m - 1))"
proof -
  assume "m \<le> 1023"
  then have "(2::int) ^ m < float_limit" by (rule float_limit_above)
  moreover have "(1::int) \<le> 2 ^ m" by (rule one_le_power) simp
  ultimately have "\<not> float_limit \<le> \<bar>(2::int) ^ m - 1\<bar>" by linarith
  then show ?thesis by (simp only: float_of_int_def if_False)
qed

lemma dyadic_angle_returns: "j \<le> 1021 \<Longrightarrow> \<exists>a. dyadic_angle j = Inr a"
proof -
  assume "j \<le> 1021"
  then have "float_of_int (2 ^ (j + 2)) = Inr (FloatOfInt (2 ^ (j + 2)))"
    by (intro float_of_int_power) simp
  then show ?thesis
    by (simp only: dyadic_angle_def sum.case) blast
qed

lemma last_angle_returns: "i < n \<Longrightarrow> n \<le> 1021 \<Longrightarrow> \<exists>a. last_angle n i = Inr a"
proof -
  assume "i < n" "n \<le> 1021"
  then have m: "n - i + 1 \<le> 1023" "n - i + 2 \<le> 1023" by simp_all
  have "float_of_int (2 ^ (n - i + 1) - 1) = Inr (FloatOfInt (2 ^ (n - i + 1) - 1))"
    using m(1) by (rule float_of_int_pred_power)
  moreover have "float_of_int (2 ^ (n - i + 2)) = Inr (FloatOfInt (2 ^ (n - i + 2)))"
    using m(2) by (rule float_of_int_power)
  ultimately show ?thesis
    by (simp only: last_angle_def sum.case) blast
qed

lemma last_angle_overflows: "1022 \<le> n \<Longrightarrow> last_angle n 0 = Inl OverflowError"
proof -
  assume "1022 \<le> n"
  then have d: "float_of_int (2 ^ (n - 0 + 2)) = Inl OverflowError"
    by (intro float_of_int_power_overflows) simp
  show ?thesis
  proof (cases "float_of_int (2 ^ (n - 0 + 1) - 1)")
    case (Inl e)
    then have "last_angle n 0 = Inl e"
      by (simp only: last_angle_def sum.case)
    then show ?thesis
      by (simp only: float_error_only [of e])
  next
    case (Inr a)
    then show ?thesis
      by (simp only: last_angle_def d sum.case)
  qed
qed

lemma rz_statements: "s \<in> set (fst (rz q a)) \<Longrightarrow> \<not> is_x s \<and> \<not> is_measure s"
  by (auto simp: rz_def emit_def split: sum.splits)

lemma dyadic_statements:
  "s \<in> set (fst (dyadic_roatation_layer n i)) \<Longrightarrow> \<not> is_x s \<and> \<not> is_measure s"
  unfolding dyadic_roatation_layer_def
  using set_fst_for_each [of "\<lambda>j. rz j (dyadic_angle j)" "[i + 1..<n]"] rz_statements
  by blast

lemma cnot_statements:
  "s \<in> set (fst (cnot_fanout_layer n i)) \<Longrightarrow> \<not> is_x s \<and> \<not> is_measure s"
  unfolding cnot_fanout_layer_def
  using set_fst_for_each [of "\<lambda>j. emit (CX i j)" "[i + 1..<n]"]
  by (auto simp: emit_def)

lemma qft_iteration_statements:
  "s \<in> set (fst (qft_iteration n i)) \<Longrightarrow> \<not> is_x s \<and> \<not> is_measure s"
proof -
  assume "s \<in> set (fst (qft_iteration n i))"
  then have "s \<in> set (fst (emit (H i))) \<or> s \<in> set (fst (dyadic_roatation_layer n i))
      \<or> s \<in> set (fst (cnot_fanout_layer n i)) \<or> s \<in> set (fst (rz i (last_angle n i)))"
    unfolding qft_iteration_def by (auto simp: fst_then_do split: if_splits)
  then show ?thesis
    using dyadic_statements cnot_statements rz_statements by (auto simp: emit_def)
qed

lemma middle_statements:
  "s \<in> set (fst (for_each (qft_iteration n) xs)) \<Longrightarrow> \<not> is_x s \<and> \<not> is_measure s"
  using set_fst_for_each [of "qft_iteration n" xs] qft_iteration_statements by blast

lemma dyadic_returns: "n \<le> 1021 \<Longrightarrow> snd (dyadic_roatation_layer n i) = None"
proof -
  assume n: "n \<le> 1021"
  have "snd (rz j (dyadic_angle j)) = None" if "j \<in> set [i + 1..<n]" for j
  proof -
    from that n have "j \<le> 1021" by simp
    then obtain a where "dyadic_angle j = Inr a"
      using dyadic_angle_returns by blast
    then show ?thesis by (simp add: rz_def emit_def)
  qed
  then show ?thesis
    unfolding dyadic_roatation_layer_def by (rule for_each_returns)
qed

lemma cnot_returns: "snd (cnot_fanout_layer n i) = None"
  unfolding cnot_fanout_layer_def by (rule for_each_returns) (simp add: emit_def)

lemma qft_iteration_returns: "i < n \<Longrightarrow> n \<le> 1021 \<Longrightarrow> snd (qft_iteration n i) = None"
proof -
  assume "i < n" "n \<le> 1021"
  then obtain a where "last_angle n i = Inr a"
    using last_angle_returns by blast
  then have "snd (rz i (last_angle n i)) = None"
    by (simp add: rz_def emit_def)
  then show ?thesis
    using \<open>n \<le> 1021\<close>
    by (simp add: qft_iteration_def snd_then_do dyadic_returns cnot_returns emit_def)
qed

lemma qft_iteration_overflows: "1022 \<le> n \<Longrightarrow> snd (qft_iteration n 0) \<noteq> None"
proof -
  assume "1022 \<le> n"
  then have "snd (rz 0 (last_angle n 0)) \<noteq> None"
    by (simp add: last_angle_overflows rz_def)
  then show ?thesis
    unfolding qft_iteration_def by (intro then_do_fails)
qed

lemma qft_iteration_head: "\<exists>rest. fst (qft_iteration n i) = H i # rest"
  by (simp add: qft_iteration_def fst_then_do emit_def)

lemma middle_head:
  "1 \<le> n \<Longrightarrow> \<exists>rest. fst (for_each (qft_iteration n) [0..<n]) = H 0 # rest"
proof -
  assume "1 \<le> n"
  then have "[0..<n] = 0 # [Suc 0..<n]"
    by (intro upt_conv_Cons) simp
  moreover obtain r where "fst (qft_iteration n 0) = H 0 # r"
    using qft_iteration_head by blast
  ultimately show ?thesis
    by (simp add: fst_then_do)
qed

lemma middle_returns: "n \<le> 1021 \<Longrightarrow> snd (for_each (qft_iteration n) [0..<n]) = None"
  by (rule for_each_returns) (simp add: qft_iteration_returns)

lemma middle_overflows: "1022 \<le> n \<Longrightarrow> snd (for_each (qft_iteration n) [0..<n]) \<noteq> None"
proof -
  assume n: "1022 \<le> n"
  then have "[0..<n] = 0 # [Suc 0..<n]"
    by (intro upt_conv_Cons) simp
  then have "for_each (qft_iteration n) [0..<n] =
      then_do (qft_iteration n 0) (for_each (qft_iteration n) [Suc 0..<n])"
    by (simp only: for_each.simps)
  then show ?thesis
    using qft_iteration_overflows [OF n] by (simp only: snd_then_do split: option.splits) simp
qed

lemma qft_body_prefix: "\<exists>rest. fst (qft_body n bit_str) = init_loop bit_str @ rest"
  by (simp add: qft_body_def fst_then_do)

lemma qft_body_returns:
  "n \<le> 1021 \<Longrightarrow>
   qft_body n bit_str =
     (init_loop bit_str @ fst (for_each (qft_iteration n) [0..<n]) @ measure_loop n, None)"
  by (simp add: qft_body_def then_do_def middle_returns)

lemma qft_program_overflows: "1022 \<le> n \<Longrightarrow> failure (qft_program n bit_str) = Some OverflowError"
proof -
  assume "1022 \<le> n"
  then have "snd (qft_body n bit_str) \<noteq> None"
    using middle_overflows [of n]
    by (simp add: qft_body_def snd_then_do split: option.splits)
  then show ?thesis
    by (cases "snd (qft_body n bit_str)") (simp_all add: qft_program_def float_error_only)
qed

lemma calls_run_pass_target: "c \<in> set (calls (run_pass ps k kw h)) \<Longrightarrow> snd c = k"
  by (auto simp: run_pass_def invoke_def Let_def split: option.splits prod.splits if_splits)


lemma invoke_leaves_store:
  "leaves_store p \<Longrightarrow> store_of (invoke n p r s) = store_of s"
proof -
  assume "leaves_store p"
  then have "fst (p r (store_of s)) = store_of s"
    by (simp add: leaves_store_def)
  then show ?thesis
    by (cases "p r (store_of s)") (simp add: invoke_def split: option.splits)
qed

lemma run_pass_asserts:
  "extended_run_pass ps = None \<Longrightarrow>
   run_pass ps k kw h = \<lparr> store_of = h, calls = [], raised = Some AssertionError \<rparr>"
  by (simp add: run_pass_def)

lemma run_pass_base_raises:
  "extended_run_pass ps = Some base \<Longrightarrow>
   snd (base (fold_arg kw) (typeinfer_arg kw) k h) \<noteq> None \<Longrightarrow>
   run_pass ps k kw h =
     \<lparr> store_of = fst (base (fold_arg kw) (typeinfer_arg kw) k h),
       calls = [(ExtendedRunPass (fold_arg kw) (typeinfer_arg kw), k)],
       raised = map_option Raised (snd (base (fold_arg kw) (typeinfer_arg kw) k h)) \<rparr>"
  by (cases "base (fold_arg kw) (typeinfer_arg kw) k h")
    (auto simp: run_pass_def invoke_def Let_def)

lemma run_pass_stops_after_native:
  "extended_run_pass ps = Some base \<Longrightarrow>
   snd (base (fold_arg kw) (typeinfer_arg kw) k h) = None \<Longrightarrow>
   \<not> parallelize_arg kw
     \<or> snd (native_rewrite ps k (fst (base (fold_arg kw) (typeinfer_arg kw) k h))) \<noteq> None \<Longrightarrow>
   run_pass ps k kw h =
     \<lparr> store_of = fst (native_rewrite ps k (fst (base (fold_arg kw) (typeinfer_arg kw) k h))),
       calls = [(ExtendedRunPass (fold_arg kw) (typeinfer_arg kw), k), (NativeRewrite, k)],
       raised = map_option Raised
         (snd (native_rewrite ps k (fst (base (fold_arg kw) (typeinfer_arg kw) k h)))) \<rparr>"
  by (cases "base (fold_arg kw) (typeinfer_arg kw) k h";
      cases "native_rewrite ps k (fst (base (fold_arg kw) (typeinfer_arg kw) k h))")
    (auto simp: run_pass_def invoke_def Let_def)

lemma run_pass_fold_raises:
  "extended_run_pass ps = Some base \<Longrightarrow>
   snd (base (fold_arg kw) (typeinfer_arg kw) k h) = None \<Longrightarrow>
   snd (native_rewrite ps k (fst (base (fold_arg kw) (typeinfer_arg kw) k h))) = None \<Longrightarrow>
   parallelize_arg kw \<Longrightarrow>
   snd (agg_fold ps k (fst (native_rewrite ps k
     (fst (base (fold_arg kw) (typeinfer_arg kw) k h))))) \<noteq> None \<Longrightarrow>
   run_pass ps k kw h =
     \<lparr> store_of = fst (agg_fold ps k (fst (native_rewrite ps k
         (fst (base (fold_arg kw) (typeinfer_arg kw) k h))))),
       calls = [(ExtendedRunPass (fold_arg kw) (typeinfer_arg kw), k), (NativeRewrite, k),
                (AggFoldFixpoint, k)],
       raised = map_option Raised (snd (agg_fold ps k (fst (native_rewrite ps k
         (fst (base (fold_arg kw) (typeinfer_arg kw) k h)))))) \<rparr>"
  by (cases "base (fold_arg kw) (typeinfer_arg kw) k h";
      cases "native_rewrite ps k (fst (base (fold_arg kw) (typeinfer_arg kw) k h))";
      cases "agg_fold ps k (fst (native_rewrite ps k
         (fst (base (fold_arg kw) (typeinfer_arg kw) k h))))")
    (auto simp: run_pass_def invoke_def Let_def)

lemma run_pass_schedules:
  "extended_run_pass ps = Some base \<Longrightarrow>
   snd (base (fold_arg kw) (typeinfer_arg kw) k h) = None \<Longrightarrow>
   snd (native_rewrite ps k (fst (base (fold_arg kw) (typeinfer_arg kw) k h))) = None \<Longrightarrow>
   parallelize_arg kw \<Longrightarrow>
   snd (agg_fold ps k (fst (native_rewrite ps k
     (fst (base (fold_arg kw) (typeinfer_arg kw) k h))))) = None \<Longrightarrow>
   run_pass ps k kw h =
     \<lparr> store_of = fst (parallelize_pass ps k (fst (agg_fold ps k (fst (native_rewrite ps k
         (fst (base (fold_arg kw) (typeinfer_arg kw) k h))))))),
       calls = [(ExtendedRunPass (fold_arg kw) (typeinfer_arg kw), k), (NativeRewrite, k),
                (AggFoldFixpoint, k), (ParallelizePass, k)],
       raised = map_option Raised (snd (parallelize_pass ps k (fst (agg_fold ps k
         (fst (native_rewrite ps k (fst (base (fold_arg kw) (typeinfer_arg kw) k h)))))))) \<rparr>"
  by (cases "base (fold_arg kw) (typeinfer_arg kw) k h";
      cases "native_rewrite ps k (fst (base (fold_arg kw) (typeinfer_arg kw) k h))";
      cases "agg_fold ps k (fst (native_rewrite ps k
         (fst (base (fold_arg kw) (typeinfer_arg kw) k h))))";
      cases "parallelize_pass ps k (fst (agg_fold ps k (fst (native_rewrite ps k
         (fst (base (fold_arg kw) (typeinfer_arg kw) k h))))))")
    (auto simp: run_pass_def invoke_def Let_def)

lemma run_pass_ignores_optimizer:
  "\<not> parallelize_arg kw \<Longrightarrow>
   run_pass (ps\<lparr>agg_fold := f, parallelize_pass := g\<rparr>) k kw h = run_pass ps k kw h"
  by (simp add: run_pass_def Let_def split: option.splits)




lemma qft_raises: "1022 \<le> n \<Longrightarrow> qft ps new n bit_str parallelize h = Inl OverflowError"
  by (simp add: qft_def qft_program_overflows)

lemma qft_compiles:
  "n \<le> 1021 \<Longrightarrow>
   qft ps new n bit_str parallelize h =
     Inr (run_pass ps new
            \<lparr> kw_fold = None, kw_typeinfer = None, kw_parallelize = Some parallelize \<rparr>
            (h(new \<mapsto> qft_program n bit_str)))"
  by (simp add: qft_def qft_program_def qft_body_returns)

lemma sample_program:
  "failure (qft_program 4 ''0101'') = None
   \<and> (\<exists>rest. body (qft_program 4 ''0101'') = X 1 # X 3 # H 0 # rest)"
proof -
  have i: "init_loop ''0101'' = [X 1, X 3]"
    by (simp add: init_loop_def upt_conv_Cons)
  obtain rest where "fst (for_each (qft_iteration 4) [0..<4]) = H 0 # rest"
    using middle_head [of 4] by auto
  then show ?thesis
    by (simp add: qft_program_def qft_body_returns i)
qed

lemma pairwise_ok_snoc:
  "pairwise_ok diag (l @ [op]) \<longleftrightarrow> pairwise_ok diag l \<and> joinable diag op l"
  by (induction l) (auto simp: joinable_def)

lemma pairwise_ok_nth:
  "pairwise_ok diag l \<Longrightarrow> i < j \<Longrightarrow> j < length l \<Longrightarrow>
   qubit_disjoint (l ! i) (l ! j) \<or> commuting diag (l ! i) (l ! j)"
proof (induction l arbitrary: i j)
  case Nil
  then show ?case by simp
next
  case (Cons a l)
  show ?case
  proof (cases i)
    case 0
    with Cons.prems obtain j' where "j = Suc j'" "j' < length l" by (cases j) auto
    with Cons.prems 0 show ?thesis by (auto simp: list_all_length)
  next
    case (Suc i')
    with Cons.prems obtain j' where "j = Suc j'" "i' < j'" "j' < length l" by (cases j) auto
    with Cons Suc show ?thesis by auto
  qed
qed

lemma place_pairwise_ok:
  assumes "\<forall>l \<in> set layers. pairwise_ok diag l"
  shows "\<forall>l \<in> set (place diag pick layers op). pairwise_ok diag l"
proof -
  have new: "\<forall>l \<in> set (layers @ [[op]]). pairwise_ok diag l"
    using assms by simp
  show ?thesis
  proof (cases "pick op layers")
    case None
    then show ?thesis using new by (simp add: place_def)
  next
    case (Some i)
    show ?thesis
    proof (cases "admissible diag op layers i")
      case False
      then show ?thesis using new Some by (simp add: place_def)
    next
      case True
      then have i: "i < length layers" and j: "joinable diag op (layers ! i)"
        by (simp_all add: admissible_def)
      have "pairwise_ok diag (layers ! i @ [op])"
        using assms i j by (simp add: pairwise_ok_snoc)
      then have "\<forall>l \<in> set (layers[i := layers ! i @ [op]]). pairwise_ok diag l"
        using assms by (auto dest!: subsetD [OF set_update_subset_insert])
      then show ?thesis using True Some by (simp add: place_def)
    qed
  qed
qed

lemma foldl_place_pairwise_ok:
  "\<forall>l \<in> set layers. pairwise_ok diag l \<Longrightarrow>
   \<forall>l \<in> set (foldl (place diag pick) layers ops). pairwise_ok diag l"
proof (induction ops arbitrary: layers)
  case Nil
  then show ?case by simp
next
  case (Cons op ops)
  have "\<forall>l \<in> set (place diag pick layers op). pairwise_ok diag l"
    using Cons.prems by (rule place_pairwise_ok)
  then show ?case using Cons.IH by simp
qed

lemma mset_concat_update:
  "i < length layers \<Longrightarrow>
   mset (concat (layers[i := layers ! i @ [op]])) = mset (concat layers) + {#op#}"
proof (induction layers arbitrary: i)
  case Nil
  then show ?case by simp
next
  case (Cons l layers)
  then show ?case by (cases i) simp_all
qed

lemma place_mset:
  "mset (concat (place diag pick layers op)) = mset (concat layers) + {#op#}"
  by (simp add: place_def admissible_def mset_concat_update split: option.splits)

lemma foldl_place_mset:
  "mset (concat (foldl (place diag pick) layers ops)) = mset (concat layers) + mset ops"
  by (induction ops arbitrary: layers) (simp_all add: place_mset)

lemma set_update_no_empty:
  "[] \<notin> set layers \<Longrightarrow> [] \<notin> set (layers[i := layers ! i @ [op]])"
  by (auto dest!: subsetD [OF set_update_subset_insert])

lemma place_no_empty:
  "[] \<notin> set layers \<Longrightarrow> [] \<notin> set (place diag pick layers op)"
  by (simp add: place_def set_update_no_empty split: option.splits)

lemma foldl_place_no_empty:
  "[] \<notin> set layers \<Longrightarrow> [] \<notin> set (foldl (place diag pick) layers ops)"
  by (induction ops arbitrary: layers) (simp_all add: place_no_empty)

lemma sample_earliest:
  "schedule diag_kinds (earliest diag_kinds) sample_circuit =
     [[GateOp ''h'' [(''q'', 1)] [], GateOp ''rz'' [(''q'', 0)] [1]], [GateOp ''cz'' [(''q'', 0), (''q'', 1)] []]]"
  by (simp add: schedule_def place_def earliest_def admissible_def joinable_def cut_off_def
      qubit_disjoint_def commuting_def diag_kinds_def sample_circuit_def)

lemma sample_most_recent:
  "schedule diag_kinds (most_recent diag_kinds) sample_circuit =
     [[GateOp ''h'' [(''q'', 1)] []], [GateOp ''cz'' [(''q'', 0), (''q'', 1)] [], GateOp ''rz'' [(''q'', 0)] [1]]]"
  by (simp add: schedule_def place_def most_recent_def admissible_def joinable_def cut_off_def
      qubit_disjoint_def commuting_def diag_kinds_def sample_circuit_def)

lemma build_keeps_declarations:
  "build c ops = Inr c' \<Longrightarrow> qubits c' = qubits c \<and> classical_bits c' = classical_bits c"
  by (induction ops arbitrary: c) (auto simp: append_operation_def split: if_splits)

lemma declared_in_append:
  "declared_in (c\<lparr>operations := xs\<rparr>) op = declared_in c op"
  by (simp add: declared_in_def)

lemma build_first_undeclared:
  "find (\<lambda>op. \<not> declared_in c op) ops = Some bad \<Longrightarrow>
   build c ops = Inl (UnknownResourceError bad)"
proof (induction ops arbitrary: c)
  case Nil
  then show ?case by simp
next
  case (Cons op ops)
  show ?case
  proof (cases "declared_in c op")
    case False
    with Cons.prems show ?thesis by (simp add: append_operation_def)
  next
    case True
    let ?c = "c\<lparr>operations := operations c @ [op]\<rparr>"
    have "find (\<lambda>op. \<not> declared_in ?c op) ops = Some bad"
      using Cons.prems True by (simp add: declared_in_append)
    then have "build ?c ops = Inl (UnknownResourceError bad)"
      by (rule Cons.IH)
    with True show ?thesis by (simp add: append_operation_def)
  qed
qed

section \<open>The gate on the parallelization scheduler\<close>

text \<open>
  Claim C1 says that \<^verbatim>\<open>run_pass\<close> invokes the scheduler if and only if \<^verbatim>\<open>parallelize\<close>
  is true, for every kernel. The instance below refutes the "if": with \<^verbatim>\<open>parallelize\<close> true
  the scheduler is not applied when the assertion of line 85 fails (no pass runs and the
  kernel is untouched), nor when the decomposition raises (the kernel is left as the base
  pass made it).
\<close>

theorem run_pass_parallelize_gate_counterexample:
  "parallelize_arg kw_parallel
   \<and> run_pass no_base_passes 0 kw_parallel sample_store =
       \<lparr> store_of = sample_store, calls = [], raised = Some AssertionError \<rparr>
   \<and> raised (run_pass failing_passes 0 kw_parallel sample_store) =
       Some (Raised ''unsupported gate'')
   \<and> calls (run_pass failing_passes 0 kw_parallel sample_store) =
       [(ExtendedRunPass True True, 0), (NativeRewrite, 0)]
   \<and> store_of (run_pass failing_passes 0 kw_parallel sample_store) 0 = Some [''extended'']
   \<and> (ParallelizePass, 0) \<notin> set (calls (run_pass failing_passes 0 kw_parallel sample_store))"
  by (simp add: run_pass_def invoke_def no_base_passes_def failing_passes_def tag_pass_def
      failing_pass_def kw_parallel_def sample_store_def parallelize_arg_def fold_arg_def
      typeinfer_arg_def)

text \<open>
  Claim C1, amended. \<^verbatim>\<open>run_pass\<close> applies the parallelization pass if and only if
  \<^verbatim>\<open>parallelize\<close> is true and the assertion, the base pass, the decomposition and the
  loop-folding fixpoint have not raised; it is then applied to the store the loop folding
  left, and what it leaves and raises is the outcome of \<^verbatim>\<open>run_pass\<close>. The loop-folding
  fixpoint is applied if and only if \<^verbatim>\<open>parallelize\<close> is true and the base pass and the
  decomposition have not raised. With \<^verbatim>\<open>parallelize\<close> false the outcome is that of the base
  pass followed by the decomposition, whatever the other two passes are. Each pass works on
  the store the pass before it left, in the order base pass, decomposition, loop folding,
  scheduling, and the first exception ends the run.
\<close>

theorem run_pass_parallelize_gate:
  "(extended_run_pass ps = None \<longrightarrow>
      run_pass ps k kw h = \<lparr> store_of = h, calls = [], raised = Some AssertionError \<rparr>)
   \<and> (extended_run_pass ps = Some base \<longrightarrow>
      (let e = ExtendedRunPass (fold_arg kw) (typeinfer_arg kw);
           r1 = base (fold_arg kw) (typeinfer_arg kw) k h;
           r2 = native_rewrite ps k (fst r1);
           r3 = agg_fold ps k (fst r2);
           r4 = parallelize_pass ps k (fst r3);
           R = run_pass ps k kw h
       in ((ParallelizePass, k) \<in> set (calls R) \<longleftrightarrow>
             parallelize_arg kw \<and> snd r1 = None \<and> snd r2 = None \<and> snd r3 = None)
        \<and> ((AggFoldFixpoint, k) \<in> set (calls R) \<longleftrightarrow>
             parallelize_arg kw \<and> snd r1 = None \<and> snd r2 = None)
        \<and> (parallelize_arg kw \<and> snd r1 = None \<and> snd r2 = None \<and> snd r3 = None \<longrightarrow>
             R = \<lparr> store_of = fst r4,
                   calls = [(e, k), (NativeRewrite, k), (AggFoldFixpoint, k), (ParallelizePass, k)],
                   raised = map_option Raised (snd r4) \<rparr>)
        \<and> (parallelize_arg kw \<and> snd r1 = None \<and> snd r2 = None \<and> snd r3 \<noteq> None \<longrightarrow>
             R = \<lparr> store_of = fst r3,
                   calls = [(e, k), (NativeRewrite, k), (AggFoldFixpoint, k)],
                   raised = map_option Raised (snd r3) \<rparr>)
        \<and> (snd r1 = None \<and> (\<not> parallelize_arg kw \<or> snd r2 \<noteq> None) \<longrightarrow>
             R = \<lparr> store_of = fst r2,
                   calls = [(e, k), (NativeRewrite, k)],
                   raised = map_option Raised (snd r2) \<rparr>)
        \<and> (snd r1 \<noteq> None \<longrightarrow>
             R = \<lparr> store_of = fst r1, calls = [(e, k)],
                   raised = map_option Raised (snd r1) \<rparr>)))
   \<and> (\<not> parallelize_arg kw \<longrightarrow>
        run_pass (ps\<lparr>agg_fold := f, parallelize_pass := g\<rparr>) k kw h = run_pass ps k kw h)
   \<and> (parallelize_arg kw \<longleftrightarrow> kw_parallelize kw = Some True)"
proof -
  let ?e = "ExtendedRunPass (fold_arg kw) (typeinfer_arg kw)"
  let ?r1 = "base (fold_arg kw) (typeinfer_arg kw) k h"
  let ?r2 = "native_rewrite ps k (fst ?r1)"
  let ?r3 = "agg_fold ps k (fst ?r2)"
  let ?r4 = "parallelize_pass ps k (fst ?r3)"
  let ?R = "run_pass ps k kw h"
  have asserts: "extended_run_pass ps = None \<Longrightarrow>
      ?R = \<lparr> store_of = h, calls = [], raised = Some AssertionError \<rparr>"
    by (rule run_pass_asserts)
  have c1: "?R = \<lparr> store_of = fst ?r1, calls = [(?e, k)], raised = map_option Raised (snd ?r1) \<rparr>"
    if "extended_run_pass ps = Some base" "snd ?r1 \<noteq> None"
    using that by (rule run_pass_base_raises)
  have c2: "?R = \<lparr> store_of = fst ?r2, calls = [(?e, k), (NativeRewrite, k)],
        raised = map_option Raised (snd ?r2) \<rparr>"
    if "extended_run_pass ps = Some base" "snd ?r1 = None"
      "\<not> parallelize_arg kw \<or> snd ?r2 \<noteq> None"
    using that by (rule run_pass_stops_after_native)
  have c3: "?R = \<lparr> store_of = fst ?r3,
        calls = [(?e, k), (NativeRewrite, k), (AggFoldFixpoint, k)],
        raised = map_option Raised (snd ?r3) \<rparr>"
    if "extended_run_pass ps = Some base" "snd ?r1 = None" "snd ?r2 = None"
      "parallelize_arg kw" "snd ?r3 \<noteq> None"
    using that by (rule run_pass_fold_raises)
  have c4: "?R = \<lparr> store_of = fst ?r4,
        calls = [(?e, k), (NativeRewrite, k), (AggFoldFixpoint, k), (ParallelizePass, k)],
        raised = map_option Raised (snd ?r4) \<rparr>"
    if "extended_run_pass ps = Some base" "snd ?r1 = None" "snd ?r2 = None"
      "parallelize_arg kw" "snd ?r3 = None"
    using that by (rule run_pass_schedules)
  have sched: "(ParallelizePass, k) \<in> set (calls ?R) \<longleftrightarrow>
      parallelize_arg kw \<and> snd ?r1 = None \<and> snd ?r2 = None \<and> snd ?r3 = None"
    if b: "extended_run_pass ps = Some base"
  proof (cases "snd ?r1 = None")
    case False
    then show ?thesis using c1 [OF b] by simp
  next
    case r1: True
    show ?thesis
    proof (cases "\<not> parallelize_arg kw \<or> snd ?r2 \<noteq> None")
      case True
      then show ?thesis using c2 [OF b r1] by auto
    next
      case False
      then have p: "parallelize_arg kw" and r2: "snd ?r2 = None" by simp_all
      show ?thesis
      proof (cases "snd ?r3 = None")
        case True
        then show ?thesis using c4 [OF b r1 r2 p] r1 r2 p by simp
      next
        case False
        then show ?thesis using c3 [OF b r1 r2 p] by simp
      qed
    qed
  qed
  have folds: "(AggFoldFixpoint, k) \<in> set (calls ?R) \<longleftrightarrow>
      parallelize_arg kw \<and> snd ?r1 = None \<and> snd ?r2 = None"
    if b: "extended_run_pass ps = Some base"
  proof (cases "snd ?r1 = None")
    case False
    then show ?thesis using c1 [OF b] by simp
  next
    case r1: True
    show ?thesis
    proof (cases "\<not> parallelize_arg kw \<or> snd ?r2 \<noteq> None")
      case True
      then show ?thesis using c2 [OF b r1] by auto
    next
      case False
      then have p: "parallelize_arg kw" and r2: "snd ?r2 = None" by simp_all
      show ?thesis
      proof (cases "snd ?r3 = None")
        case True
        then show ?thesis using c4 [OF b r1 r2 p] r1 r2 p by simp
      next
        case False
        then show ?thesis using c3 [OF b r1 r2 p] r1 r2 p by simp
      qed
    qed
  qed
  have frame: "\<not> parallelize_arg kw \<Longrightarrow>
      run_pass (ps\<lparr>agg_fold := f, parallelize_pass := g\<rparr>) k kw h = ?R"
    by (rule run_pass_ignores_optimizer)
  have flag: "parallelize_arg kw \<longleftrightarrow> kw_parallelize kw = Some True"
    by (simp add: parallelize_arg_def split: option.splits)
  show ?thesis
    unfolding Let_def
    using asserts c1 c2 c3 c4 sched folds frame flag by blast
qed

theorem run_pass_parallelize_gate_witness:
  "extended_run_pass sample_passes = Some (\<lambda>f t. tag_pass ''extended'')
   \<and> parallelize_arg kw_parallel
   \<and> (ParallelizePass, 0) \<in> set (calls (run_pass sample_passes 0 kw_parallel sample_store))
   \<and> store_of (run_pass sample_passes 0 kw_parallel sample_store) =
       fst (tag_pass ''parallel'' 0 (fst (tag_pass ''fold'' 0 (fst (tag_pass ''native'' 0
         (fst (tag_pass ''extended'' 0 sample_store)))))))
   \<and> store_of (run_pass sample_passes 0 kw_parallel sample_store) 0 =
       Some [''extended'', ''native'', ''fold'', ''parallel'']
   \<and> \<not> parallelize_arg kw_default
   \<and> (ParallelizePass, 0) \<notin> set (calls (run_pass sample_passes 0 kw_default sample_store))
   \<and> (AggFoldFixpoint, 0) \<notin> set (calls (run_pass sample_passes 0 kw_default sample_store))
   \<and> store_of (run_pass sample_passes 0 kw_default sample_store) 0 =
       Some [''extended'', ''native'']
   \<and> run_pass (sample_passes\<lparr>agg_fold := failing_pass ''a'', parallelize_pass := failing_pass ''b''\<rparr>)
         0 kw_default sample_store = run_pass sample_passes 0 kw_default sample_store"
proof -
  let ?base = "\<lambda>(f::bool) (t::bool). tag_pass ''extended''"
  have b: "extended_run_pass sample_passes = Some ?base"
    and n: "native_rewrite sample_passes = tag_pass ''native''"
    and a: "agg_fold sample_passes = tag_pass ''fold''"
    and s: "parallelize_pass sample_passes = tag_pass ''parallel''"
    by (simp_all add: sample_passes_def)
  have p: "parallelize_arg kw_parallel" "\<not> parallelize_arg kw_default"
    by (simp_all add: kw_parallel_def kw_default_def parallelize_arg_def)
  have ok: "snd (tag_pass name r st) = None" for name r st
    by (simp add: tag_pass_def)
  note t1 = run_pass_parallelize_gate
    [where ps = sample_passes and k = 0 and kw = kw_parallel and h = sample_store
      and base = ?base, unfolded Let_def n a s]
  note t2 = run_pass_parallelize_gate
    [where ps = sample_passes and k = 0 and kw = kw_default and h = sample_store
      and base = ?base and f = "failing_pass ''a''" and g = "failing_pass ''b''",
      unfolded Let_def n a s]
  have sched: "(ParallelizePass, 0) \<in> set (calls (run_pass sample_passes 0 kw_parallel sample_store))"
    using t1 b p(1) ok by blast
  have R1: "store_of (run_pass sample_passes 0 kw_parallel sample_store) =
       fst (tag_pass ''parallel'' 0 (fst (tag_pass ''fold'' 0 (fst (tag_pass ''native'' 0
         (fst (tag_pass ''extended'' 0 sample_store)))))))"
  proof -
    from t1 b p(1) ok
    have "run_pass sample_passes 0 kw_parallel sample_store =
        \<lparr> store_of = fst (tag_pass ''parallel'' 0 (fst (tag_pass ''fold'' 0
             (fst (tag_pass ''native'' 0 (fst (tag_pass ''extended'' 0 sample_store))))))),
          calls = [(ExtendedRunPass (fold_arg kw_parallel) (typeinfer_arg kw_parallel), 0),
                   (NativeRewrite, 0), (AggFoldFixpoint, 0), (ParallelizePass, 0)],
          raised = map_option Raised (snd (tag_pass ''parallel'' 0 (fst (tag_pass ''fold'' 0
             (fst (tag_pass ''native'' 0 (fst (tag_pass ''extended'' 0 sample_store)))))))) \<rparr>"
      by blast
    then show ?thesis by simp
  qed
  have v1: "store_of (run_pass sample_passes 0 kw_parallel sample_store) 0 =
       Some [''extended'', ''native'', ''fold'', ''parallel'']"
    unfolding R1 by (simp add: tag_pass_def sample_store_def)
  have no: "(ParallelizePass, 0) \<notin> set (calls (run_pass sample_passes 0 kw_default sample_store))"
    "(AggFoldFixpoint, 0) \<notin> set (calls (run_pass sample_passes 0 kw_default sample_store))"
    using t2 b p(2) by blast+
  have R2: "run_pass sample_passes 0 kw_default sample_store =
        \<lparr> store_of = fst (tag_pass ''native'' 0 (fst (tag_pass ''extended'' 0 sample_store))),
          calls = [(ExtendedRunPass (fold_arg kw_default) (typeinfer_arg kw_default), 0),
                   (NativeRewrite, 0)],
          raised = map_option Raised (snd (tag_pass ''native'' 0
             (fst (tag_pass ''extended'' 0 sample_store)))) \<rparr>"
    using t2 b p(2) ok by blast
  have v2: "store_of (run_pass sample_passes 0 kw_default sample_store) 0 =
       Some [''extended'', ''native'']"
    unfolding R2 by (simp add: tag_pass_def sample_store_def)
  have fr: "run_pass (sample_passes\<lparr>agg_fold := failing_pass ''a'',
        parallelize_pass := failing_pass ''b''\<rparr>) 0 kw_default sample_store =
      run_pass sample_passes 0 kw_default sample_store"
    using t2 p(2) by blast
  show ?thesis
    using b p sched R1 v1 no v2 fr by simp
qed


section \<open>The keyword arguments\<close>





section \<open>Passes work on the caller's kernel object\<close>

text \<open>
  Claim C6 says that no pass changes the circuit it is given and that each pass yields a
  new circuit, with no aliasing across passes. The instance below refutes it for
  \<^verbatim>\<open>run_pass\<close>: the four passes are all handed the caller's object \<open>0\<close>, and with passes that
  write to the kernel they are given, the code the caller finds in object \<open>0\<close> afterwards is
  not the code it put there.
\<close>

theorem run_pass_not_functional_counterexample:
  "sample_store 0 = Some []
   \<and> store_of (run_pass sample_passes 0 kw_parallel sample_store) 0 =
       Some [''extended'', ''native'', ''fold'', ''parallel'']
   \<and> calls (run_pass sample_passes 0 kw_parallel sample_store) =
       [(ExtendedRunPass True True, 0), (NativeRewrite, 0), (AggFoldFixpoint, 0),
        (ParallelizePass, 0)]"
  by (simp add: run_pass_def invoke_def sample_passes_def tag_pass_def kw_parallel_def
      sample_store_def fold_arg_def typeinfer_arg_def parallelize_arg_def)

text \<open>
  Claim C6, amended. \<^verbatim>\<open>run_pass\<close> hands the caller's own kernel object to every pass it
  calls and returns no circuit. Each pass works on the store the pass before it left, and
  the store the last pass leaves is what the caller observes; when no pass writes to the
  store, \<^verbatim>\<open>run_pass\<close> leaves the store, and with it the caller's kernel, as it was.
\<close>

theorem run_pass_in_place:
  "(\<forall>c \<in> set (calls (run_pass ps k kw h)). snd c = k)
   \<and> ((\<forall>base. extended_run_pass ps = Some base \<longrightarrow>
          leaves_store (base (fold_arg kw) (typeinfer_arg kw)))
        \<and> leaves_store (native_rewrite ps)
        \<and> leaves_store (agg_fold ps)
        \<and> leaves_store (parallelize_pass ps) \<longrightarrow>
        store_of (run_pass ps k kw h) = h)
   \<and> (extended_run_pass ps = Some base \<and> raised (run_pass ps k kw h) = None
        \<and> parallelize_arg kw \<longrightarrow>
        store_of (run_pass ps k kw h) =
          fst (parallelize_pass ps k
            (fst (agg_fold ps k
              (fst (native_rewrite ps k
                (fst (base (fold_arg kw) (typeinfer_arg kw) k h))))))))
   \<and> (extended_run_pass ps = Some base \<and> raised (run_pass ps k kw h) = None
        \<and> \<not> parallelize_arg kw \<longrightarrow>
        store_of (run_pass ps k kw h) =
          fst (native_rewrite ps k (fst (base (fold_arg kw) (typeinfer_arg kw) k h))))"
proof -
  have target: "\<forall>c \<in> set (calls (run_pass ps k kw h)). snd c = k"
    using calls_run_pass_target by blast
  have idle: "store_of (run_pass ps k kw h) = h"
    if "\<forall>base. extended_run_pass ps = Some base \<longrightarrow>
          leaves_store (base (fold_arg kw) (typeinfer_arg kw))"
      and "leaves_store (native_rewrite ps)" and "leaves_store (agg_fold ps)"
      and "leaves_store (parallelize_pass ps)"
    using that by (simp add: run_pass_def Let_def invoke_leaves_store split: option.splits)
  have chain: "store_of (run_pass ps k kw h) =
          fst (parallelize_pass ps k
            (fst (agg_fold ps k
              (fst (native_rewrite ps k
                (fst (base (fold_arg kw) (typeinfer_arg kw) k h)))))))"
    if "extended_run_pass ps = Some base" and "raised (run_pass ps k kw h) = None"
      and "parallelize_arg kw"
    using that
    by (auto simp: run_pass_def invoke_def Let_def split: option.splits prod.splits if_splits)
  have chain2: "store_of (run_pass ps k kw h) =
          fst (native_rewrite ps k (fst (base (fold_arg kw) (typeinfer_arg kw) k h)))"
    if "extended_run_pass ps = Some base" and "raised (run_pass ps k kw h) = None"
      and "\<not> parallelize_arg kw"
    using that
    by (auto simp: run_pass_def invoke_def Let_def split: option.splits prod.splits if_splits)
  show ?thesis
    using target idle chain chain2 by blast
qed

theorem run_pass_in_place_witness:
  "list_all (\<lambda>c. snd c = 0) (calls (run_pass idle_passes 0 kw_parallel sample_store))
   \<and> calls (run_pass idle_passes 0 kw_parallel sample_store) \<noteq> []
   \<and> leaves_store (native_rewrite idle_passes)
   \<and> leaves_store (agg_fold idle_passes)
   \<and> leaves_store (parallelize_pass idle_passes)
   \<and> store_of (run_pass idle_passes 0 kw_parallel sample_store) = sample_store
   \<and> raised (run_pass sample_passes 0 kw_parallel sample_store) = None
   \<and> parallelize_arg kw_parallel
   \<and> store_of (run_pass sample_passes 0 kw_parallel sample_store) =
       fst (tag_pass ''parallel'' 0 (fst (tag_pass ''fold'' 0 (fst (tag_pass ''native'' 0
         (fst (tag_pass ''extended'' 0 sample_store)))))))"
proof -
  have l: "leaves_store idle_pass"
    by (simp add: leaves_store_def idle_pass_def)
  have ls: "\<forall>base. extended_run_pass idle_passes = Some base \<longrightarrow>
          leaves_store (base (fold_arg kw_parallel) (typeinfer_arg kw_parallel))"
    "leaves_store (native_rewrite idle_passes)"
    "leaves_store (agg_fold idle_passes)"
    "leaves_store (parallelize_pass idle_passes)"
    using l by (simp_all add: idle_passes_def)
  have ne: "calls (run_pass idle_passes 0 kw_parallel sample_store) \<noteq> []"
    by (simp add: run_pass_def invoke_def idle_passes_def idle_pass_def kw_parallel_def
        parallelize_arg_def)
  have r: "raised (run_pass sample_passes 0 kw_parallel sample_store) = None"
    by (simp add: run_pass_def invoke_def sample_passes_def tag_pass_def kw_parallel_def
        parallelize_arg_def)
  have p: "parallelize_arg kw_parallel"
    by (simp add: kw_parallel_def parallelize_arg_def)
  have e: "extended_run_pass sample_passes = Some (\<lambda>f t. tag_pass ''extended'')"
    "native_rewrite sample_passes = tag_pass ''native''"
    "agg_fold sample_passes = tag_pass ''fold''"
    "parallelize_pass sample_passes = tag_pass ''parallel''"
    by (simp_all add: sample_passes_def)
  show ?thesis
    using ls ne r p e
      run_pass_in_place [of idle_passes 0 kw_parallel sample_store]
      run_pass_in_place [of sample_passes 0 kw_parallel sample_store "\<lambda>f t. tag_pass ''extended''"]
    by (simp add: list_all_iff)
qed


section \<open>The shape of the QFT kernel\<close>

text \<open>
  Claim C9 speaks of the kernel \<^verbatim>\<open>qft(n, bit_str, parallelize)\<close> builds, for every
  \<open>n \<ge> 1\<close>. The instance below refutes it twice. For \<open>n = 1022\<close> the angle of the last
  rotation overflows and \<^verbatim>\<open>qft\<close> raises \<^verbatim>\<open>OverflowError\<close>. For \<open>n = 4\<close> and a decomposition
  that rewrites \<open>X\<close> gates, the kernel \<^verbatim>\<open>qft\<close> returns begins with the rewritten gates, not
  with \<open>X\<close>.
\<close>

theorem qft_program_shape_counterexample:
  "length ''0101'' \<le> (1022::nat)
   \<and> qft decomposing_passes 0 1022 ''0101'' True empty_store = Inl OverflowError
   \<and> length ''0101'' \<le> (4::nat)
   \<and> (case qft decomposing_passes 0 4 ''0101'' True empty_store of
        Inl e \<Rightarrow> False
      | Inr r \<Rightarrow>
          raised r = None
          \<and> map_option (\<lambda>p. take 3 (body p)) (store_of r 0) = Some [H 1, RZ 1 MathPi, H 1])"
proof -
  have over: "qft decomposing_passes 0 1022 ''0101'' True empty_store = Inl OverflowError"
    by (rule qft_raises) simp
  obtain rest where f: "failure (qft_program 4 ''0101'') = None"
    and b: "body (qft_program 4 ''0101'') = X 1 # X 3 # H 0 # rest"
    using sample_program by blast
  have "qft decomposing_passes 0 4 ''0101'' True empty_store =
      Inr (run_pass decomposing_passes 0
            \<lparr> kw_fold = None, kw_typeinfer = None, kw_parallelize = Some True \<rparr>
            (empty_store(0 \<mapsto> qft_program 4 ''0101'')))"
    by (rule qft_compiles) simp
  moreover have "raised (run_pass decomposing_passes 0
        \<lparr> kw_fold = None, kw_typeinfer = None, kw_parallelize = Some True \<rparr>
        (empty_store(0 \<mapsto> qft_program 4 ''0101''))) = None
      \<and> map_option (\<lambda>p. take 3 (body p)) (store_of (run_pass decomposing_passes 0
        \<lparr> kw_fold = None, kw_typeinfer = None, kw_parallelize = Some True \<rparr>
        (empty_store(0 \<mapsto> qft_program 4 ''0101''))) 0) = Some [H 1, RZ 1 MathPi, H 1]"
    using b
    by (simp add: run_pass_def invoke_def decomposing_passes_def skip_pass_def
        rewrite_x_pass_def parallelize_arg_def)
  ultimately show ?thesis
    using over by simp
qed

text \<open>
  Claim C9, amended. For \<open>1 \<le> n \<le> 1021\<close> and a bit string no longer than \<open>n\<close>, the body
  of \<^verbatim>\<open>qft_program\<close> raises nothing, declares one quantum register of size \<open>n\<close> and one
  classical register of size \<open>n\<close>, begins with an \<open>X\<close> on \<open>qreg[i]\<close> for exactly the positions
  \<open>i\<close> with \<open>bit_str[i] = '1'\<close>, in increasing order (the statement after them is the Hadamard
  gate on qubit 0, and no \<open>X\<close> or measurement follows before the end), and ends with the \<open>n\<close>
  measurements of \<open>qreg[i]\<close> into \<open>creg[i]\<close> for \<open>i = 0, \<dots>, n - 1\<close>. \<^verbatim>\<open>qft\<close> hands this kernel
  to \<^verbatim>\<open>run_pass\<close> with the given \<^verbatim>\<open>parallelize\<close>, and what the run makes of it is what
  \<^verbatim>\<open>qft\<close> returns. For \<open>n \<ge> 1022\<close> \<^verbatim>\<open>qft\<close> raises \<^verbatim>\<open>OverflowError\<close>.
\<close>

theorem qft_program_shape:
  "(1 \<le> n \<and> n \<le> 1021 \<and> length bit_str \<le> n \<longrightarrow>
      failure (qft_program n bit_str) = None
      \<and> qregs (qft_program n bit_str) = [n]
      \<and> cregs (qft_program n bit_str) = [n]
      \<and> take (length (init_loop bit_str)) (body (qft_program n bit_str)) =
          map X (filter (\<lambda>i. bit_str ! i = CHR ''1'') [0..<length bit_str])
      \<and> body (qft_program n bit_str) ! length (init_loop bit_str) = H 0
      \<and> list_all (\<lambda>s. \<not> is_x s \<and> \<not> is_measure s)
          (take (length (body (qft_program n bit_str)) - n - length (init_loop bit_str))
             (drop (length (init_loop bit_str)) (body (qft_program n bit_str))))
      \<and> drop (length (body (qft_program n bit_str)) - n) (body (qft_program n bit_str)) =
          map (\<lambda>i. Measure i i) [0..<n]
      \<and> qft ps new n bit_str parallelize h =
          Inr (run_pass ps new
                 \<lparr> kw_fold = None, kw_typeinfer = None, kw_parallelize = Some parallelize \<rparr>
                 (h(new \<mapsto> qft_program n bit_str))))
   \<and> (1022 \<le> n \<longrightarrow> qft ps new n bit_str parallelize h = Inl OverflowError)"
proof -
  have small: "failure (qft_program n bit_str) = None
      \<and> qregs (qft_program n bit_str) = [n]
      \<and> cregs (qft_program n bit_str) = [n]
      \<and> take (length (init_loop bit_str)) (body (qft_program n bit_str)) =
          map X (filter (\<lambda>i. bit_str ! i = CHR ''1'') [0..<length bit_str])
      \<and> body (qft_program n bit_str) ! length (init_loop bit_str) = H 0
      \<and> list_all (\<lambda>s. \<not> is_x s \<and> \<not> is_measure s)
          (take (length (body (qft_program n bit_str)) - n - length (init_loop bit_str))
             (drop (length (init_loop bit_str)) (body (qft_program n bit_str))))
      \<and> drop (length (body (qft_program n bit_str)) - n) (body (qft_program n bit_str)) =
          map (\<lambda>i. Measure i i) [0..<n]
      \<and> qft ps new n bit_str parallelize h =
          Inr (run_pass ps new
                 \<lparr> kw_fold = None, kw_typeinfer = None, kw_parallelize = Some parallelize \<rparr>
                 (h(new \<mapsto> qft_program n bit_str)))"
    if n1: "1 \<le> n" and n2: "n \<le> 1021"
  proof -
    let ?mid = "fst (for_each (qft_iteration n) [0..<n])"
    let ?b = "body (qft_program n bit_str)"
    have b: "?b = init_loop bit_str @ ?mid @ measure_loop n"
      and f: "failure (qft_program n bit_str) = None"
      using n2 by (simp_all add: qft_program_def qft_body_returns)
    obtain rest where rest: "?mid = H 0 # rest"
      using middle_head [OF n1] by blast
    have len: "length (measure_loop n) = n"
      by (simp add: measure_loop_def)
    have regs: "qregs (qft_program n bit_str) = [n]" "cregs (qft_program n bit_str) = [n]"
      by (simp_all add: qft_program_def)
    have pre: "take (length (init_loop bit_str)) ?b =
        map X (filter (\<lambda>i. bit_str ! i = CHR ''1'') [0..<length bit_str])"
      unfolding b by (simp add: init_loop_eq [symmetric])
    have nxt: "?b ! length (init_loop bit_str) = H 0"
      unfolding b rest by (simp add: nth_append)
    have "take (length ?b - n - length (init_loop bit_str)) (drop (length (init_loop bit_str)) ?b)
        = ?mid"
      unfolding b using len by simp
    moreover have "list_all (\<lambda>s. \<not> is_x s \<and> \<not> is_measure s) ?mid"
      unfolding list_all_iff using middle_statements by blast
    ultimately have mid: "list_all (\<lambda>s. \<not> is_x s \<and> \<not> is_measure s)
        (take (length ?b - n - length (init_loop bit_str)) (drop (length (init_loop bit_str)) ?b))"
      by simp
    have fin: "drop (length ?b - n) ?b = map (\<lambda>i. Measure i i) [0..<n]"
      unfolding b using len by (simp add: measure_loop_def)
    have run: "qft ps new n bit_str parallelize h =
          Inr (run_pass ps new
                 \<lparr> kw_fold = None, kw_typeinfer = None, kw_parallelize = Some parallelize \<rparr>
                 (h(new \<mapsto> qft_program n bit_str)))"
      using n2 by (rule qft_compiles)
    show ?thesis
      using f regs pre nxt mid fin run by blast
  qed
  have big: "1022 \<le> n \<Longrightarrow> qft ps new n bit_str parallelize h = Inl OverflowError"
    by (rule qft_raises)
  show ?thesis
    using small big by blast
qed

theorem qft_program_shape_witness:
  "(1::nat) \<le> 4 \<and> (4::nat) \<le> 1021 \<and> length ''0101'' \<le> (4::nat)
   \<and> failure (qft_program 4 ''0101'') = None
   \<and> qregs (qft_program 4 ''0101'') = [4]
   \<and> cregs (qft_program 4 ''0101'') = [4]
   \<and> take 2 (body (qft_program 4 ''0101'')) = [X 1, X 3]
   \<and> body (qft_program 4 ''0101'') ! 2 = H 0
   \<and> drop (length (body (qft_program 4 ''0101'')) - 4) (body (qft_program 4 ''0101'')) =
       [Measure 0 0, Measure 1 1, Measure 2 2, Measure 3 3]
   \<and> qft decomposing_passes 0 4 ''0101'' False empty_store =
       Inr (run_pass decomposing_passes 0
              \<lparr> kw_fold = None, kw_typeinfer = None, kw_parallelize = Some False \<rparr>
              (empty_store(0 \<mapsto> qft_program 4 ''0101'')))
   \<and> (1022::nat) \<le> 2000
   \<and> qft decomposing_passes 0 2000 ''0101'' False empty_store = Inl OverflowError"
proof -
  have h: "(1::nat) \<le> 4 \<and> (4::nat) \<le> 1021 \<and> length ''0101'' \<le> (4::nat)" by simp
  have g: "(1022::nat) \<le> 2000" by simp
  have i: "length (init_loop ''0101'') = 2"
    by (simp add: init_loop_def upt_conv_Cons)
  have f: "map X (filter (\<lambda>i. ''0101'' ! i = CHR ''1'') [0..<length ''0101'']) = [X 1, X 3]"
    by (simp add: upt_conv_Cons)
  have m: "map (\<lambda>i. Measure i i) [0..<4] = [Measure 0 0, Measure 1 1, Measure 2 2, Measure 3 3]"
    by (simp add: upt_conv_Cons)
  note t = qft_program_shape [where n = 4 and bit_str = "''0101''" and ps = decomposing_passes
      and new = 0 and parallelize = False and h = empty_store]
  note u = qft_program_shape [where n = 2000 and bit_str = "''0101''" and ps = decomposing_passes
      and new = 0 and parallelize = False and h = empty_store]
  from t h have "failure (qft_program 4 ''0101'') = None"
    and "qregs (qft_program 4 ''0101'') = [4]"
    and "cregs (qft_program 4 ''0101'') = [4]"
    and "take (length (init_loop ''0101'')) (body (qft_program 4 ''0101'')) =
        map X (filter (\<lambda>i. ''0101'' ! i = CHR ''1'') [0..<length ''0101''])"
    and "body (qft_program 4 ''0101'') ! length (init_loop ''0101'') = H 0"
    and "drop (length (body (qft_program 4 ''0101'')) - 4) (body (qft_program 4 ''0101'')) =
        map (\<lambda>i. Measure i i) [0..<4]"
    and "qft decomposing_passes 0 4 ''0101'' False empty_store =
       Inr (run_pass decomposing_passes 0
              \<lparr> kw_fold = None, kw_typeinfer = None, kw_parallelize = Some False \<rparr>
              (empty_store(0 \<mapsto> qft_program 4 ''0101'')))"
    by blast+
  moreover from u g
  have "qft decomposing_passes 0 2000 ''0101'' False empty_store = Inl OverflowError"
    by blast
  ultimately show ?thesis
    unfolding i f m using h g by blast
qed

section \<open>Qubit indices of the initialization loop\<close>

text \<open>
  Claim C10. The initialization loop refers to \<open>qreg[i]\<close> for exactly the positions
  \<open>i < len(bit_str)\<close> with \<open>bit_str[i] = '1'\<close>. When \<open>len(bit_str) \<le> n\<close> all of them lie inside
  the register of \<open>n\<close> qubits. A \<open>'1'\<close> at a position \<open>i \<ge> n\<close> puts an \<open>X\<close> on \<open>qreg[i]\<close>,
  outside the declared register, into the kernel, and for every \<open>n\<close> there is such a bit
  string.
\<close>

theorem init_loop_register_bounds:
  "set (concat (map qubits_of (init_loop bit_str))) =
      {i. i < length bit_str \<and> bit_str ! i = CHR ''1''}
   \<and> (length bit_str \<le> n \<longrightarrow>
        (\<forall>q \<in> set (concat (map qubits_of (init_loop bit_str))). q < n))
   \<and> (\<forall>i. n \<le> i \<and> i < length bit_str \<and> bit_str ! i = CHR ''1'' \<longrightarrow>
        X i \<in> set (body (qft_program n bit_str)) \<and> qregs (qft_program n bit_str) = [n])
   \<and> (\<exists>bs i. n < length bs \<and> n \<le> i \<and> i < length bs \<and> bs ! i = CHR ''1''
        \<and> X i \<in> set (body (qft_program n bs)) \<and> qregs (qft_program n bs) = [n])"
proof -
  have idx: "set (concat (map qubits_of (init_loop bit_str))) =
      {i. i < length bit_str \<and> bit_str ! i = CHR ''1''}" for bit_str
    by (auto simp: init_loop_eq)
  have inside: "\<forall>q \<in> set (concat (map qubits_of (init_loop bit_str))). q < n"
    if "length bit_str \<le> n"
    unfolding idx using that by auto
  have outside: "X i \<in> set (body (qft_program n bs)) \<and> qregs (qft_program n bs) = [n]"
    if "i < length bs" "bs ! i = CHR ''1''" for i bs
  proof -
    obtain rest where "fst (qft_body n bs) = init_loop bs @ rest"
      using qft_body_prefix by blast
    then show ?thesis
      using that by (auto simp: qft_program_def init_loop_eq)
  qed
  let ?bs = "replicate n CHR ''0'' @ ''1''"
  have "n < length ?bs \<and> n \<le> n \<and> n < length ?bs \<and> ?bs ! n = CHR ''1''"
    by (simp add: nth_append)
  with outside [of n ?bs]
  have ex: "\<exists>bs i. n < length bs \<and> n \<le> i \<and> i < length bs \<and> bs ! i = CHR ''1''
        \<and> X i \<in> set (body (qft_program n bs)) \<and> qregs (qft_program n bs) = [n]"
    by blast
  show ?thesis
    using idx inside outside ex by blast
qed

theorem init_loop_register_bounds_witness:
  "length ''0101'' \<le> (4::nat)
   \<and> list_all (\<lambda>q. q < 4) (concat (map qubits_of (init_loop ''0101'')))
   \<and> (1::nat) \<le> 1 \<and> (1::nat) < length ''01'' \<and> ''01'' ! 1 = CHR ''1''
   \<and> X 1 \<in> set (body (qft_program 1 ''01'')) \<and> qregs (qft_program 1 ''01'') = [1]"
proof -
  have h: "length ''0101'' \<le> (4::nat)" by simp
  have g: "(1::nat) \<le> 1 \<and> (1::nat) < length ''01'' \<and> ''01'' ! 1 = CHR ''1''" by simp
  show ?thesis
    using h g init_loop_register_bounds [of "''0101''" 4]
      init_loop_register_bounds [of "''01''" 1]
    unfolding list_all_iff by blast
qed


section \<open>Layers of the scheduler\<close>

text \<open>
  Claim C3. In every Layer sequence the scheduler produces, for whatever circuit, diagonal
  gate kinds and tie-break, any two Operations placed in the same Layer are qubit-disjoint or
  commuting: no Layer holds two non-commuting Operations that share a qubit. The Layers hold
  exactly the Operations of the circuit, and no Layer is empty.
\<close>

theorem schedule_layers_compatible:
  "(\<forall>layer \<in> set (schedule diag pick ops). \<forall>i j. i < j \<and> j < length layer \<longrightarrow>
      (qubit_disjoint (layer ! i) (layer ! j) \<or> commuting diag (layer ! i) (layer ! j))
      \<and> \<not> (\<not> commuting diag (layer ! i) (layer ! j) \<and> \<not> qubit_disjoint (layer ! i) (layer ! j)))
   \<and> mset (concat (schedule diag pick ops)) = mset ops
   \<and> [] \<notin> set (schedule diag pick ops)"
proof -
  have "\<forall>l \<in> set (schedule diag pick ops). pairwise_ok diag l"
    unfolding schedule_def by (rule foldl_place_pairwise_ok) simp
  then have pairs: "\<forall>layer \<in> set (schedule diag pick ops). \<forall>i j. i < j \<and> j < length layer \<longrightarrow>
      qubit_disjoint (layer ! i) (layer ! j) \<or> commuting diag (layer ! i) (layer ! j)"
    using pairwise_ok_nth by blast
  have all: "mset (concat (schedule diag pick ops)) = mset ops"
    unfolding schedule_def by (simp add: foldl_place_mset)
  have ne: "[] \<notin> set (schedule diag pick ops)"
    unfolding schedule_def by (rule foldl_place_no_empty) simp
  show ?thesis
    using pairs all ne by blast
qed

theorem schedule_layers_compatible_witness:
  "[GateOp ''cz'' [(''q'', 0), (''q'', 1)] [], GateOp ''rz'' [(''q'', 0)] [1]]
      \<in> set (schedule diag_kinds (most_recent diag_kinds) sample_circuit)
   \<and> (0::nat) < 1 \<and> (1::nat) < length [GateOp ''cz'' [(''q'', 0), (''q'', 1)] [], GateOp ''rz'' [(''q'', 0)] [1::int]]
   \<and> commuting diag_kinds (GateOp ''cz'' [(''q'', 0), (''q'', 1)] []) (GateOp ''rz'' [(''q'', 0)] [1::int])
   \<and> [GateOp ''h'' [(''q'', 1)] [], GateOp ''rz'' [(''q'', 0)] [1]]
      \<in> set (schedule diag_kinds (earliest diag_kinds) sample_circuit)
   \<and> qubit_disjoint (GateOp ''h'' [(''q'', 1)] []) (GateOp ''rz'' [(''q'', 0)] [1::int])"
proof -
  let ?l = "[GateOp ''cz'' [(''q'', 0), (''q'', 1)] [], GateOp ''rz'' [(''q'', 0)] [1::int]]"
  let ?m = "[GateOp ''h'' [(''q'', 1)] [], GateOp ''rz'' [(''q'', 0)] [1::int]]"
  have in1: "?l \<in> set (schedule diag_kinds (most_recent diag_kinds) sample_circuit)"
    by (simp add: sample_most_recent)
  have in2: "?m \<in> set (schedule diag_kinds (earliest diag_kinds) sample_circuit)"
    by (simp add: sample_earliest)
  have idx: "(0::nat) < 1 \<and> (1::nat) < length ?l" "(0::nat) < 1 \<and> (1::nat) < length ?m"
    by simp_all
  have not_disjoint: "\<not> qubit_disjoint (GateOp ''cz'' [(''q'', 0), (''q'', 1)] []) (GateOp ''rz'' [(''q'', 0)] [1::int])"
    by (simp add: qubit_disjoint_def)
  have not_both: "\<not> diagonal_op diag_kinds (GateOp ''h'' [(''q'', 1)] ([]::int list))"
    by (simp add: diag_kinds_def)
  from schedule_layers_compatible [of diag_kinds "most_recent diag_kinds" sample_circuit] in1 idx(1)
  have "qubit_disjoint (?l ! 0) (?l ! 1) \<or> commuting diag_kinds (?l ! 0) (?l ! 1)"
    by blast
  then have c1: "commuting diag_kinds (GateOp ''cz'' [(''q'', 0), (''q'', 1)] []) (GateOp ''rz'' [(''q'', 0)] [1::int])"
    using not_disjoint by simp
  from schedule_layers_compatible [of diag_kinds "earliest diag_kinds" sample_circuit] in2 idx(2)
  have "qubit_disjoint (?m ! 0) (?m ! 1) \<or> commuting diag_kinds (?m ! 0) (?m ! 1)"
    by blast
  then have c2: "qubit_disjoint (GateOp ''h'' [(''q'', 1)] []) (GateOp ''rz'' [(''q'', 0)] [1::int])"
    using not_both by (simp add: commuting_def)
  show ?thesis
    using in1 in2 c1 c2 by simp
qed



section \<open>Undeclared classical bits\<close>

text \<open>
  Claim C7. When an Operation of the program refers to a classical bit the Circuit does not
  declare (bit 5 of a four-bit register, say), the pipeline ends with
  \<^verbatim>\<open>UnknownResourceError\<close> carrying the first Operation of the program that refers to an
  undeclared qubit or bit, and returns no circuit, whatever the later stages are.
\<close>

theorem undeclared_bit_aborts:
  assumes "op \<in> set ops" and "b \<in> set (bits_of op)" and "b \<notin> set (classical_bits c)"
  shows "\<exists>bad. find (\<lambda>op. \<not> declared_in c op) ops = Some bad
           \<and> bad \<in> set ops \<and> \<not> declared_in c bad
           \<and> compile stages c ops = Inl (UnknownResourceError bad)
           \<and> (\<forall>out. compile stages c ops \<noteq> Inr out)"
proof -
  have "\<not> declared_in c op"
    using assms(2,3) by (auto simp: declared_in_def list_all_iff)
  with assms(1) obtain bad where bad: "find (\<lambda>op. \<not> declared_in c op) ops = Some bad"
    by (cases "find (\<lambda>op. \<not> declared_in c op) ops") (auto simp: find_None_iff)
  then have "bad \<in> set ops" "\<not> declared_in c bad"
    by (auto simp: find_Some_iff)
  moreover have "compile stages c ops = Inl (UnknownResourceError bad)"
    using build_first_undeclared [OF bad] by (simp add: compile_def)
  ultimately show ?thesis
    using bad by auto
qed

theorem undeclared_bit_aborts_witness:
  "MeasureOp (''q'', 0) (''c'', 5) \<in> set bad_program
   \<and> (''c'', 5) \<in> set (bits_of (MeasureOp (''q'', 0) (''c'', 5) :: int operation))
   \<and> (''c'', 5) \<notin> set (classical_bits four_bit_circuit)
   \<and> compile no_stages four_bit_circuit bad_program =
        Inl (UnknownResourceError (MeasureOp (''q'', 0) (''c'', 5)))"
proof -
  have h1: "MeasureOp (''q'', 0) (''c'', 5) \<in> set bad_program"
    by (simp add: bad_program_def)
  have h2: "(''c'', 5) \<in> set (bits_of (MeasureOp (''q'', 0) (''c'', 5) :: int operation))"
    by simp
  have h3: "(''c'', 5) \<notin> set (classical_bits four_bit_circuit)"
    by (auto simp: four_bit_circuit_def declare_circuit_def)
  have f: "find (\<lambda>op. \<not> declared_in four_bit_circuit op) bad_program =
      Some (MeasureOp (''q'', 0) (''c'', 5))"
    using h3 by (simp add: bad_program_def declared_in_def four_bit_circuit_def declare_circuit_def)
  show ?thesis
    using undeclared_bit_aborts [OF h1 h2 h3, of no_stages] h1 h2 h3 f by auto
qed


end
